theory Spec2Isabelle
  imports Complex_Main "HOL-Library.AList"
begin

section \<open>Python values used by \<open>env_state_controller.py\<close>\<close>

text \<open>
  Weights, intensities, the decay factor and the threshold are Python floats. They are
  modelled as \<^typ>\<open>real\<close>, the type the specification gives them: rounding, infinities
  and NaN are outside the model. A \<open>str\<close> is a \<^typ>\<open>string\<close>, one \<^typ>\<open>char\<close> per
  code point (so the model covers the code points below 256).

  A \<open>Dict[str, float]\<close> is an association list in insertion order whose keys are
  pairwise distinct (\<open>wf_dict\<close>); the operations below are the ones the source uses.
\<close>

datatype error = KeyError string

type_synonym pydict = "(string \<times> real) list"

definition wf_dict :: "pydict \<Rightarrow> bool" where
  "wf_dict d = distinct (map fst d)"

text \<open>\<open>d.get(k, default)\<close>\<close>

definition dict_get :: "pydict \<Rightarrow> string \<Rightarrow> real \<Rightarrow> real" where
  "dict_get d k dflt = (case map_of d k of None \<Rightarrow> dflt | Some v \<Rightarrow> v)"

text \<open>\<open>d[k]\<close> as an expression: raises \<open>KeyError\<close> on an absent key.\<close>

definition dict_getitem :: "pydict \<Rightarrow> string \<Rightarrow> error + real" where
  "dict_getitem d k = (case map_of d k of None \<Rightarrow> Inl (KeyError k) | Some v \<Rightarrow> Inr v)"

text \<open>\<open>d[k] = v\<close>: overwrites in place, or appends a new key at the end.\<close>

definition dict_setitem :: "pydict \<Rightarrow> string \<Rightarrow> real \<Rightarrow> pydict" where
  "dict_setitem d k v = AList.update k v d"

text \<open>\<open>del d[k]\<close>: raises \<open>KeyError\<close> on an absent key.\<close>

definition dict_delitem :: "pydict \<Rightarrow> string \<Rightarrow> error + pydict" where
  "dict_delitem d k =
     (if k \<in> set (map fst d) then Inr (AList.delete k d) else Inl (KeyError k))"

text \<open>\<open>list(d.keys())\<close>\<close>

definition dict_keys :: "pydict \<Rightarrow> string list" where
  "dict_keys d = map fst d"

section \<open>The decaying weight store: \<open>_TokenMemoryShim\<close>\<close>

record TokenMemoryShim =
  name :: string
  decay :: real
  token_weights :: pydict

text \<open>\<open>__init__(self, name, decay=0.95)\<close>\<close>

definition TokenMemoryShim_init :: "string \<Rightarrow> real \<Rightarrow> TokenMemoryShim" where
  "TokenMemoryShim_init nm dc = \<lparr>name = nm, decay = dc, token_weights = []\<rparr>"

text \<open>
  \<open>update_weights(self, tokens, intensity)\<close>: one pass of the \<open>for t in tokens\<close> loop per
  list element, in list order.
\<close>

fun update_weights :: "TokenMemoryShim \<Rightarrow> string list \<Rightarrow> real \<Rightarrow> TokenMemoryShim" where
  "update_weights self [] intensity = self"
| "update_weights self (t # ts) intensity =
     (let prev = dict_get (token_weights self) t 0
      in update_weights
           (self\<lparr>token_weights :=
                   dict_setitem (token_weights self) t (prev * decay self + intensity)\<rparr>)
           ts intensity)"

text \<open>
  \<open>decay_weights(self)\<close>: the loop runs over a list of the keys taken before the first
  iteration. \<open>self.token_weights[t] *= self.decay\<close> reads \<open>d[t]\<close> and writes it back;
  the test reads \<open>d[t]\<close> again; \<open>del\<close> removes the key. Each of the three can raise
  \<open>KeyError\<close>, which ends the call.

  The literal \<open>1e-6\<close> is the double nearest to \<open>10\<^sup>-\<^sup>6\<close>, which is
  \<open>4722366482869645 / 2 ^ 72\<close>, a little below \<open>1 / 1000000\<close>.
\<close>

definition epsilon :: real where
  "epsilon = 4722366482869645 / 2 ^ 72"

fun decay_loop :: "string list \<Rightarrow> TokenMemoryShim \<Rightarrow> error + TokenMemoryShim" where
  "decay_loop [] self = Inr self"
| "decay_loop (t # ts) self =
     (case dict_getitem (token_weights self) t of
        Inl e \<Rightarrow> Inl e
      | Inr w \<Rightarrow>
          (let self1 = self\<lparr>token_weights :=
                               dict_setitem (token_weights self) t (w * decay self)\<rparr>
           in case dict_getitem (token_weights self1) t of
                Inl e \<Rightarrow> Inl e
              | Inr w1 \<Rightarrow>
                  if w1 < epsilon then
                    (case dict_delitem (token_weights self1) t of
                       Inl e \<Rightarrow> Inl e
                     | Inr d \<Rightarrow> decay_loop ts (self1\<lparr>token_weights := d\<rparr>))
                  else decay_loop ts self1))"

definition decay_weights :: "TokenMemoryShim \<Rightarrow> error + TokenMemoryShim" where
  "decay_weights self = decay_loop (dict_keys (token_weights self)) self"

text \<open>
  \<open>get_weights(self)\<close> returns \<open>dict(self.token_weights)\<close>. In this value model a
  dictionary is its contents, so the copy is the contents; the reference model
  further down separates the two objects.
\<close>

definition get_weights :: "TokenMemoryShim \<Rightarrow> pydict" where
  "get_weights self = token_weights self"

section \<open>The threshold policy: \<open>EnvironmentStateTracker\<close> and \<open>RelationalController\<close>\<close>

record EnvironmentStateTracker =
  mem :: TokenMemoryShim
  threshold :: real

text \<open>\<open>__init__(self, decay=0.95, threshold=0.6)\<close>\<close>

definition EnvironmentStateTracker_init :: "real \<Rightarrow> real \<Rightarrow> EnvironmentStateTracker" where
  "EnvironmentStateTracker_init dc th = \<lparr>mem = TokenMemoryShim_init ''Env'' dc, threshold = th\<rparr>"

definition observe :: "EnvironmentStateTracker \<Rightarrow> string list \<Rightarrow> real \<Rightarrow> EnvironmentStateTracker" where
  "observe self tokens intensity = self\<lparr>mem := update_weights (mem self) tokens intensity\<rparr>"

definition hypothesis :: "EnvironmentStateTracker \<Rightarrow> string \<Rightarrow> bool" where
  "hypothesis self key = (dict_get (get_weights (mem self)) key 0 \<ge> threshold self)"

record RelationalController =
  env :: EnvironmentStateTracker

text \<open>The \<open>default_factory\<close> of the field \<open>env\<close>.\<close>

definition RelationalController_default :: RelationalController where
  "RelationalController_default = \<lparr>env = EnvironmentStateTracker_init (95 / 100) (6 / 10)\<rparr>"

text \<open>
  The decision is a \<open>Dict[str, str]\<close> with the keys \<open>assumption\<close>, \<open>action\<close> and
  \<open>command\<close>, in that order. \<open>s[:-3]\<close> keeps the first \<open>len(s) - 3\<close> characters and is
  empty when \<open>len(s) \<le> 3\<close>.
\<close>

type_synonym decision = "(string \<times> string) list"

definition slice_drop_last3 :: "string \<Rightarrow> string" where
  "slice_drop_last3 s = take (length s - 3) s"

definition policy_for_pdf_request :: "RelationalController \<Rightarrow> string \<Rightarrow> string \<Rightarrow> decision" where
  "policy_for_pdf_request self brief_path_md engine =
     (let has_windows = hypothesis (env self) ''Windows'';
          has_pwsh = hypothesis (env self) ''PowerShell'';
          has_pandoc = hypothesis (env self) ''PandocInstalled''
      in if has_windows \<and> has_pwsh \<and> has_pandoc then
           (let cmd = ''pandoc \"'' @ brief_path_md @ ''\" -o \"'' @
                      slice_drop_last3 brief_path_md @ ''.pdf\" --pdf-engine='' @ engine
            in [(''assumption'', ''Windows + PowerShell + Pandoc present''),
                (''action'', ''Provide direct conversion command''),
                (''command'', cmd)])
         else if has_windows \<and> has_pwsh \<and> \<not> has_pandoc then
           [(''assumption'', ''Windows + PowerShell; Pandoc uncertain''),
            (''action'', ''Offer install path then conversion command''),
            (''command'', ''winget install Pandoc.Pandoc'')]
         else
           [(''assumption'', ''Environment uncertain''),
            (''action'', ''Ask one clarifying question to establish environment''),
            (''command'', ''Do you have Pandoc installed and can you run PowerShell on Windows?'')])"

text \<open>The default of the \<open>engine\<close> parameter.\<close>

definition default_engine :: string where
  "default_engine = ''xelatex''"

section \<open>The demo run: \<open>demo_environment_awareness\<close>\<close>

definition demo_path :: string where
  "demo_path = ''C:'' @ [CHR 0x5C] @ ''Users'' @ [CHR 0x5C] @ ''Robin_B_Macomber'' @ [CHR 0x5C] @
     ''ANGEL_ML'' @ [CHR 0x5C] @ ''ANGEL.AI_Business'' @ [CHR 0x5C] @ ''ANGEL_System_Brief.md''"

text \<open>The tracker after the three \<open>observe\<close> calls of the demo.\<close>

definition demo_env :: EnvironmentStateTracker where
  "demo_env =
     (let env0 = EnvironmentStateTracker_init (9 / 10) (6 / 10);
          env1 = observe env0 [''Windows'', ''PowerShell''] (7 / 10);
          env2 = observe env1 [''PandocInstalled'', ''PDFExportSuccess''] (8 / 10);
          env3 = observe env2 [''PowerShell''] (6 / 10)
      in env3)"

text \<open>
  The returned pair stands for the dictionary with the keys \<open>env_state\<close> (the weights,
  read back from their JSON text) and \<open>policy_decision\<close>.
\<close>

definition demo_environment_awareness :: "pydict \<times> decision" where
  "demo_environment_awareness =
     (let ctrl = \<lparr>env = demo_env\<rparr>;
          decision = policy_for_pdf_request ctrl demo_path default_engine
      in (get_weights (mem demo_env), decision))"

section \<open>Call sequences and the specification's view of a decay pass\<close>

text \<open>
  The specification describes a decay pass in two steps: multiply every stored weight by
  the decay factor, then remove the entries whose new weight is below \<open>1e-6\<close>.
  \<open>decay_pass_spec\<close> follows these words, to be compared with the loop of
  \<open>decay_weights\<close>.
\<close>

definition decay_pass_spec :: "real \<Rightarrow> pydict \<Rightarrow> pydict" where
  "decay_pass_spec dc d =
     filter (\<lambda>(k, w). \<not> w < epsilon) (map (\<lambda>(k, w). (k, w * dc)) d)"

text \<open>A caller's sequence of calls on one store; an exception ends the sequence.\<close>

datatype call = Update "string list" real | Decay

fun apply_call :: "TokenMemoryShim \<Rightarrow> call \<Rightarrow> error + TokenMemoryShim" where
  "apply_call self (Update tokens intensity) = Inr (update_weights self tokens intensity)"
| "apply_call self Decay = decay_weights self"

fun run_calls :: "TokenMemoryShim \<Rightarrow> call list \<Rightarrow> error + TokenMemoryShim" where
  "run_calls self [] = Inr self"
| "run_calls self (c # cs) =
     (case apply_call self c of Inl e \<Rightarrow> Inl e | Inr self' \<Rightarrow> run_calls self' cs)"

text \<open>The intensity of every \<open>update\<close> call is positive.\<close>

fun positive_call :: "call \<Rightarrow> bool" where
  "positive_call (Update tokens intensity) = (0 < intensity)"
| "positive_call Decay = True"

text \<open>A call touches a token when it is an update whose token list contains it.\<close>

fun touches :: "string \<Rightarrow> call \<Rightarrow> bool" where
  "touches t (Update tokens intensity) = (t \<in> set tokens)"
| "touches t Decay = False"

text \<open>The invariant of the store along a call sequence.\<close>

definition nonneg_dict :: "pydict \<Rightarrow> bool" where
  "nonneg_dict d = (\<forall>(k, w) \<in> set d. 0 \<le> w)"

definition store_inv :: "real \<Rightarrow> TokenMemoryShim \<Rightarrow> bool" where
  "store_inv dc s = (decay s = dc \<and> wf_dict (token_weights s) \<and> nonneg_dict (token_weights s))"

text \<open>\<open>n\<close> decay passes in a row.\<close>

fun decay_passes :: "nat \<Rightarrow> TokenMemoryShim \<Rightarrow> error + TokenMemoryShim" where
  "decay_passes 0 self = Inr self"
| "decay_passes (Suc n) self =
     (case decay_weights self of Inl e \<Rightarrow> Inl e | Inr self' \<Rightarrow> decay_passes n self')"

section \<open>The reference model: dictionaries as objects\<close>

text \<open>
  In Python the attribute \<open>token_weights\<close> holds a reference to a dictionary object, and
  \<open>dict(self.token_weights)\<close> allocates a new object with the same items. The heap maps
  every reference to the contents of its dictionary; the references below \<open>next_ref\<close>
  are the allocated ones. The methods of the store are the value-level functions above,
  run on the contents found at the store's reference and written back there.
\<close>

type_synonym ref = nat

record heap =
  cell :: "ref \<Rightarrow> pydict"
  next_ref :: ref

record TokenMemoryShim_obj =
  obj_name :: string
  obj_decay :: real
  obj_token_weights :: ref

record EnvironmentStateTracker_obj =
  obj_mem :: TokenMemoryShim_obj
  obj_threshold :: real

definition shim_value :: "heap \<Rightarrow> TokenMemoryShim_obj \<Rightarrow> TokenMemoryShim" where
  "shim_value h self =
     \<lparr>name = obj_name self, decay = obj_decay self,
      token_weights = cell h (obj_token_weights self)\<rparr>"

definition tracker_value :: "heap \<Rightarrow> EnvironmentStateTracker_obj \<Rightarrow> EnvironmentStateTracker" where
  "tracker_value h self = \<lparr>mem = shim_value h (obj_mem self), threshold = obj_threshold self\<rparr>"

definition update_weights_ref :: "heap \<Rightarrow> TokenMemoryShim_obj \<Rightarrow> string list \<Rightarrow> real \<Rightarrow> heap" where
  "update_weights_ref h self tokens intensity =
     h\<lparr>cell := (cell h)(obj_token_weights self :=
                   token_weights (update_weights (shim_value h self) tokens intensity))\<rparr>"

definition decay_weights_ref :: "heap \<Rightarrow> TokenMemoryShim_obj \<Rightarrow> error + heap" where
  "decay_weights_ref h self =
     (case decay_weights (shim_value h self) of
        Inl e \<Rightarrow> Inl e
      | Inr self' \<Rightarrow> Inr (h\<lparr>cell := (cell h)(obj_token_weights self := token_weights self')\<rparr>))"

text \<open>\<open>dict(self.token_weights)\<close>: a new object, returned by reference.\<close>

definition get_weights_ref :: "heap \<Rightarrow> TokenMemoryShim_obj \<Rightarrow> heap \<times> ref" where
  "get_weights_ref h self =
     (let c = next_ref h
      in (h\<lparr>cell := (cell h)(c := cell h (obj_token_weights self)), next_ref := Suc c\<rparr>, c))"

definition hypothesis_ref :: "heap \<Rightarrow> EnvironmentStateTracker_obj \<Rightarrow> string \<Rightarrow> heap \<times> bool" where
  "hypothesis_ref h self key =
     (let (h', c) = get_weights_ref h (obj_mem self)
      in (h', dict_get (cell h' c) key 0 \<ge> obj_threshold self))"

text \<open>
  Whatever a caller does in place to the dictionary object at \<open>c\<close> (item assignment,
  \<open>del\<close>, \<open>clear\<close>, \<open>update\<close>, \<open>pop\<close>) leaves that object with some contents \<open>d\<close>.
\<close>

definition caller_mutation :: "ref \<Rightarrow> heap \<Rightarrow> pydict \<Rightarrow> heap" where
  "caller_mutation c h d = h\<lparr>cell := (cell h)(c := d)\<rparr>"

definition caller_mutations :: "ref \<Rightarrow> heap \<Rightarrow> pydict list \<Rightarrow> heap" where
  "caller_mutations c h ds = foldl (caller_mutation c) h ds"

section \<open>Properties of the weight store\<close>

lemma update_weights_decay [simp]: "decay (update_weights self ts I) = decay self"
  by (induction ts arbitrary: self) (simp_all add: Let_def)

lemma update_weights_name [simp]: "name (update_weights self ts I) = name self"
  by (induction ts arbitrary: self) (simp_all add: Let_def)

lemma wf_dict_setitem: "wf_dict d \<Longrightarrow> wf_dict (dict_setitem d k v)"
  by (simp add: wf_dict_def dict_setitem_def distinct_update)

lemma update_weights_wf: "wf_dict (token_weights self) \<Longrightarrow> wf_dict (token_weights (update_weights self ts I))"
  by (induction ts arbitrary: self) (simp_all add: Let_def wf_dict_setitem)

lemma map_of_setitem: "map_of (dict_setitem d k v) = (map_of d)(k \<mapsto> v)"
  by (simp add: dict_setitem_def update_conv')

lemma dict_get_setitem: "dict_get (dict_setitem d k v) k' dflt = (if k' = k then v else dict_get d k' dflt)"
  by (simp add: dict_get_def map_of_setitem)

lemma update_weights_lookup:
  "map_of (token_weights (update_weights self ts I)) t =
     (if t \<in> set ts
      then Some (dict_get (token_weights self) t 0 * decay self ^ count_list ts t
                 + I * (\<Sum>i<count_list ts t. decay self ^ i))
      else map_of (token_weights self) t)"
proof (induction ts arbitrary: self)
  case Nil
  show ?case by simp
next
  case (Cons x ts)
  let ?d = "decay self"
  let ?prev = "dict_get (token_weights self) x 0"
  let ?self1 = "self\<lparr>token_weights := dict_setitem (token_weights self) x (?prev * ?d + I)\<rparr>"
  have step: "update_weights self (x # ts) I = update_weights ?self1 ts I"
    by (simp add: Let_def)
  have ih: "map_of (token_weights (update_weights ?self1 ts I)) t =
     (if t \<in> set ts
      then Some (dict_get (token_weights ?self1) t 0 * ?d ^ count_list ts t
                 + I * (\<Sum>i<count_list ts t. ?d ^ i))
      else map_of (token_weights ?self1) t)"
    using Cons.IH [of ?self1] by simp
  show ?case
  proof (cases "x = t")
    case False
    then show ?thesis
      unfolding step ih by (simp add: dict_get_setitem map_of_setitem)
  next
    case True
    show ?thesis
    proof (cases "t \<in> set ts")
      case False
      with True show ?thesis
        unfolding step ih by (simp add: map_of_setitem)
    next
      case in_ts: True
      with True show ?thesis
        unfolding step ih by (simp add: dict_get_setitem algebra_simps)
    qed
  qed
qed

lemma hypothesis_iff:
  "hypothesis e k = (threshold e \<le> dict_get (token_weights (mem e)) k 0)"
  by (simp add: hypothesis_def get_weights_def)

subsection \<open>The decision table\<close>

text \<open>
  C1. \<open>policy_for_pdf_request\<close> selects one of three fixed records from the hypotheses
  for \<open>Windows\<close>, \<open>PowerShell\<close> and \<open>PandocInstalled\<close>: all three true gives the
  direct-conversion record, whose command embeds the path and the engine; the first two
  true and the third false gives the install record with the command
  \<open>winget install Pandoc.Pandoc\<close>; every other combination gives the
  clarifying-question record, whose command field is the fixed question.
\<close>

theorem policy_decision_table:
  fixes self :: RelationalController
  defines "W \<equiv> hypothesis (env self) ''Windows''"
    and "P \<equiv> hypothesis (env self) ''PowerShell''"
    and "T \<equiv> hypothesis (env self) ''PandocInstalled''"
  shows "(W \<and> P \<and> T \<longrightarrow>
            policy_for_pdf_request self path engine =
              [(''assumption'', ''Windows + PowerShell + Pandoc present''),
               (''action'', ''Provide direct conversion command''),
               (''command'', ''pandoc \"'' @ path @ ''\" -o \"'' @ slice_drop_last3 path @
                             ''.pdf\" --pdf-engine='' @ engine)])
       \<and> (W \<and> P \<and> \<not> T \<longrightarrow>
            policy_for_pdf_request self path engine =
              [(''assumption'', ''Windows + PowerShell; Pandoc uncertain''),
               (''action'', ''Offer install path then conversion command''),
               (''command'', ''winget install Pandoc.Pandoc'')])
       \<and> (\<not> (W \<and> P) \<longrightarrow>
            policy_for_pdf_request self path engine =
              [(''assumption'', ''Environment uncertain''),
               (''action'', ''Ask one clarifying question to establish environment''),
               (''command'',
                ''Do you have Pandoc installed and can you run PowerShell on Windows?'')])"
  unfolding W_def P_def T_def policy_for_pdf_request_def Let_def by simp

text \<open>Unfolding rules for evaluating the operations on concrete stores.\<close>

lemmas run_simps =
  RelationalController_default_def EnvironmentStateTracker_init_def TokenMemoryShim_init_def
  observe_def hypothesis_def get_weights_def dict_get_def dict_setitem_def Let_def

theorem policy_decision_table_witness:
  "policy_for_pdf_request
      (RelationalController_default\<lparr>env := observe (env RelationalController_default)
          [''Windows'', ''PowerShell'', ''PandocInstalled''] 1\<rparr>) ''a.md'' ''xelatex'' =
     [(''assumption'', ''Windows + PowerShell + Pandoc present''),
      (''action'', ''Provide direct conversion command''),
      (''command'', ''pandoc \"a.md\" -o \"a.pdf\" --pdf-engine=xelatex'')]
   \<and> policy_for_pdf_request
      (RelationalController_default\<lparr>env := observe (env RelationalController_default)
          [''Windows'', ''PowerShell''] 1\<rparr>) ''a.md'' ''xelatex'' =
     [(''assumption'', ''Windows + PowerShell; Pandoc uncertain''),
      (''action'', ''Offer install path then conversion command''),
      (''command'', ''winget install Pandoc.Pandoc'')]
   \<and> policy_for_pdf_request RelationalController_default ''a.md'' ''xelatex'' =
     [(''assumption'', ''Environment uncertain''),
      (''action'', ''Ask one clarifying question to establish environment''),
      (''command'', ''Do you have Pandoc installed and can you run PowerShell on Windows?'')]"
proof -
  let ?c1 = "RelationalController_default\<lparr>env := observe (env RelationalController_default)
          [''Windows'', ''PowerShell'', ''PandocInstalled''] 1\<rparr>"
  let ?c2 = "RelationalController_default\<lparr>env := observe (env RelationalController_default)
          [''Windows'', ''PowerShell''] 1\<rparr>"
  let ?c3 = "RelationalController_default"
  have h1: "hypothesis (env ?c1) ''Windows'' \<and> hypothesis (env ?c1) ''PowerShell''
            \<and> hypothesis (env ?c1) ''PandocInstalled''"
    by (simp add: run_simps)
  have h2: "hypothesis (env ?c2) ''Windows'' \<and> hypothesis (env ?c2) ''PowerShell''
            \<and> \<not> hypothesis (env ?c2) ''PandocInstalled''"
    by (simp add: run_simps)
  have h3: "\<not> (hypothesis (env ?c3) ''Windows'' \<and> hypothesis (env ?c3) ''PowerShell'')"
    by (simp add: run_simps)
  have r1: "policy_for_pdf_request ?c1 ''a.md'' ''xelatex'' =
     [(''assumption'', ''Windows + PowerShell + Pandoc present''),
      (''action'', ''Provide direct conversion command''),
      (''command'', ''pandoc \"'' @ ''a.md'' @ ''\" -o \"'' @ slice_drop_last3 ''a.md'' @
                    ''.pdf\" --pdf-engine='' @ ''xelatex'')]"
    using policy_decision_table [of ?c1 "''a.md''" "''xelatex''"] h1 by blast
  have r2: "policy_for_pdf_request ?c2 ''a.md'' ''xelatex'' =
     [(''assumption'', ''Windows + PowerShell; Pandoc uncertain''),
      (''action'', ''Offer install path then conversion command''),
      (''command'', ''winget install Pandoc.Pandoc'')]"
    using policy_decision_table [of ?c2 "''a.md''" "''xelatex''"] h2 by blast
  have r3: "policy_for_pdf_request ?c3 ''a.md'' ''xelatex'' =
     [(''assumption'', ''Environment uncertain''),
      (''action'', ''Ask one clarifying question to establish environment''),
      (''command'', ''Do you have Pandoc installed and can you run PowerShell on Windows?'')]"
    using policy_decision_table [of ?c3 "''a.md''" "''xelatex''"] h3 by blast
  have sl: "slice_drop_last3 ''a.md'' = ''a''"
    by (simp add: slice_drop_last3_def)
  show ?thesis
    unfolding r1 r2 r3 sl by simp
qed

subsection \<open>Updating\<close>

text \<open>
  C2. When the tokens passed to \<open>update_weights\<close> form a set (no token occurs twice) and
  the intensity is positive, every token passed gets the weight
  \<open>previous_weight * decay + intensity\<close>, with previous weight 0 for an absent token, and
  every other token keeps its entry. On a fresh store, updating \<open>[x]\<close> leaves exactly the
  weight \<open>intensity\<close> for \<open>x\<close>; updating \<open>[x]\<close> twice leaves \<open>intensity * decay + intensity\<close>.
  That value is not always different from \<open>2 * intensity\<close>: for the decay factor 1 it is
  \<open>2 * intensity\<close>.
\<close>

theorem update_weights_set:
  assumes "distinct tokens" and "0 < intensity"
  shows "(\<forall>t \<in> set tokens.
            map_of (token_weights (update_weights self tokens intensity)) t =
              Some (dict_get (token_weights self) t 0 * decay self + intensity))
       \<and> (\<forall>t. t \<notin> set tokens \<longrightarrow>
            map_of (token_weights (update_weights self tokens intensity)) t =
              map_of (token_weights self) t)
       \<and> token_weights (update_weights (TokenMemoryShim_init nm dc) [x] intensity) =
            [(x, intensity)]
       \<and> token_weights
            (update_weights (update_weights (TokenMemoryShim_init nm dc) [x] intensity)
               [x] intensity) = [(x, intensity * dc + intensity)]
       \<and> (dc = 1 \<longrightarrow>
            token_weights
              (update_weights (update_weights (TokenMemoryShim_init nm dc) [x] intensity)
                 [x] intensity) = [(x, 2 * intensity)])"
proof -
  have cnt: "count_list tokens t = 1" if "t \<in> set tokens" for t
    using that assms(1) by (induction tokens) auto
  have a: "\<forall>t \<in> set tokens.
            map_of (token_weights (update_weights self tokens intensity)) t =
              Some (dict_get (token_weights self) t 0 * decay self + intensity)"
    by (simp add: update_weights_lookup cnt)
  have b: "\<forall>t. t \<notin> set tokens \<longrightarrow>
            map_of (token_weights (update_weights self tokens intensity)) t =
              map_of (token_weights self) t"
    by (simp add: update_weights_lookup)
  have c: "token_weights (update_weights (TokenMemoryShim_init nm dc) [x] intensity) =
            [(x, intensity)]"
    by (simp add: TokenMemoryShim_init_def dict_get_def dict_setitem_def)
  have d: "token_weights
            (update_weights (update_weights (TokenMemoryShim_init nm dc) [x] intensity)
               [x] intensity) = [(x, intensity * dc + intensity)]"
    by (simp add: TokenMemoryShim_init_def dict_get_def dict_setitem_def)
  have e: "dc = 1 \<longrightarrow>
            token_weights
              (update_weights (update_weights (TokenMemoryShim_init nm dc) [x] intensity)
                 [x] intensity) = [(x, 2 * intensity)]"
    unfolding d by simp
  from a b c d e show ?thesis by blast
qed

theorem update_weights_set_witness:
  "token_weights (update_weights (TokenMemoryShim_init ''Env'' (9 / 10)) [''X'', ''Y''] (1 / 2))
     = [(''X'', 1 / 2), (''Y'', 1 / 2)]
   \<and> map_of (token_weights
        (update_weights \<lparr>name = ''Env'', decay = 9 / 10, token_weights = [(''X'', 2), (''Z'', 3)]\<rparr>
           [''X'', ''Y''] (1 / 2))) ''X'' = Some (23 / 10)
   \<and> map_of (token_weights
        (update_weights \<lparr>name = ''Env'', decay = 9 / 10, token_weights = [(''X'', 2), (''Z'', 3)]\<rparr>
           [''X'', ''Y''] (1 / 2))) ''Z'' = Some 3
   \<and> token_weights
        (update_weights (update_weights (TokenMemoryShim_init ''Env'' (9 / 10)) [''X''] (1 / 2))
           [''X''] (1 / 2)) = [(''X'', 19 / 20)]
   \<and> token_weights
        (update_weights (update_weights (TokenMemoryShim_init ''Env'' 1) [''X''] (1 / 2))
           [''X''] (1 / 2)) = [(''X'', 2 * (1 / 2))]"
proof -
  let ?s = "\<lparr>name = ''Env'', decay = 9 / 10, token_weights = [(''X'', 2), (''Z'', 3)]\<rparr>"
  have dt: "distinct [''X'', ''Y'']" by simp
  have pos: "(0::real) < 1 / 2" by simp
  note th = update_weights_set [OF dt pos, of ?s "''Env''" "9 / 10" "''X''"]
  note th1 = update_weights_set [OF dt pos, of ?s "''Env''" 1 "''X''"]
  have x: "map_of (token_weights (update_weights ?s [''X'', ''Y''] (1 / 2))) ''X'' =
             Some (dict_get (token_weights ?s) ''X'' 0 * decay ?s + 1 / 2)"
    using th by simp
  have z: "map_of (token_weights (update_weights ?s [''X'', ''Y''] (1 / 2))) ''Z'' =
             map_of (token_weights ?s) ''Z''"
    using th by simp
  have tw: "token_weights
        (update_weights (update_weights (TokenMemoryShim_init ''Env'' (9 / 10)) [''X''] (1 / 2))
           [''X''] (1 / 2)) = [(''X'', 1 / 2 * (9 / 10) + 1 / 2)]"
    using th by blast
  have one: "token_weights
        (update_weights (update_weights (TokenMemoryShim_init ''Env'' 1) [''X''] (1 / 2))
           [''X''] (1 / 2)) = [(''X'', 2 * (1 / 2))]"
    using th1 by blast
  have fresh: "token_weights (update_weights (TokenMemoryShim_init ''Env'' (9 / 10)) [''X'', ''Y''] (1 / 2))
     = [(''X'', 1 / 2), (''Y'', 1 / 2)]"
    by (simp add: run_simps)
  show ?thesis
    unfolding x z tw fresh one by (simp add: dict_get_def)
qed

text \<open>
  With the decay factor 1, which the specification allows, two updates of \<open>X\<close> at
  intensity 1 on a fresh store leave the weight \<open>2 * 1\<close>.
\<close>

theorem update_twice_decay_one:
  "token_weights
     (update_weights (update_weights (TokenMemoryShim_init ''Env'' 1) [''X''] 1) [''X''] 1) =
   [(''X'', 2 * 1)]"
  by (simp add: TokenMemoryShim_init_def dict_get_def dict_setitem_def)

text \<open>The step of the update loop, repeated: its value over the reals.\<close>

lemma geometric_shift: "1 + d * (\<Sum>i<k. d ^ i) = (\<Sum>i<k. d ^ i) + d ^ k" for d :: real
  by (induction k) (simp_all add: algebra_simps)

lemma step_funpow_closed_form:
  "((\<lambda>w. w * d + I) ^^ k) (w0::real) = w0 * d ^ k + I * (\<Sum>i<k. d ^ i)"
proof (induction k)
  case 0
  show ?case by simp
next
  case (Suc k)
  have "((\<lambda>w. w * d + I) ^^ Suc k) w0 = (w0 * d ^ k + I * (\<Sum>i<k. d ^ i)) * d + I"
    using Suc.IH by simp
  also have "\<dots> = w0 * d ^ Suc k + I * (1 + d * (\<Sum>i<k. d ^ i))"
    by (simp add: algebra_simps)
  also have "\<dots> = w0 * d ^ Suc k + I * (\<Sum>i<Suc k. d ^ i)"
    unfolding geometric_shift by simp
  finally show ?case .
qed

text \<open>
  C10. \<open>update_weights\<close> takes a list and runs the decay-and-add step
  \<open>w \<mapsto> w * decay + intensity\<close> once per occurrence: a token that occurs \<open>k > 0\<close> times ends
  with the \<open>k\<close>-fold step applied to its previous weight. A token listed twice ends with
  \<open>(prev * decay + intensity) * decay + intensity\<close>. That is the value of a single listing
  exactly when \<open>prev * decay + intensity\<close> is a fixed point of the step, which happens.
\<close>

theorem update_weights_repeated_token:
  fixes self :: TokenMemoryShim
  assumes "count_list tokens t = k" and "0 < k"
  defines "prev \<equiv> dict_get (token_weights self) t 0"
  shows "map_of (token_weights (update_weights self tokens intensity)) t =
           Some (((\<lambda>w. w * decay self + intensity) ^^ k) prev)
       \<and> map_of (token_weights (update_weights self [t, t] intensity)) t =
           Some ((prev * decay self + intensity) * decay self + intensity)
       \<and> map_of (token_weights (update_weights self [t] intensity)) t =
           Some (prev * decay self + intensity)
       \<and> (map_of (token_weights (update_weights self [t, t] intensity)) t =
            map_of (token_weights (update_weights self [t] intensity)) t
           \<longleftrightarrow> (prev * decay self + intensity) * decay self + intensity
                 = prev * decay self + intensity)"
proof -
  from assms(1,2) have mem: "t \<in> set tokens"
    using count_list_0_iff [of tokens t] by auto
  have a: "map_of (token_weights (update_weights self tokens intensity)) t =
           Some (((\<lambda>w. w * decay self + intensity) ^^ k) prev)"
    using mem assms(1) by (simp add: update_weights_lookup step_funpow_closed_form prev_def)
  have b: "map_of (token_weights (update_weights self [t, t] intensity)) t =
           Some ((prev * decay self + intensity) * decay self + intensity)"
    by (simp add: Let_def dict_get_setitem map_of_setitem prev_def)
  have c: "map_of (token_weights (update_weights self [t] intensity)) t =
           Some (prev * decay self + intensity)"
    by (simp add: Let_def map_of_setitem prev_def)
  have d: "map_of (token_weights (update_weights self [t, t] intensity)) t =
            map_of (token_weights (update_weights self [t] intensity)) t
           \<longleftrightarrow> (prev * decay self + intensity) * decay self + intensity
                 = prev * decay self + intensity"
    unfolding b c by simp
  from a b c d show ?thesis by blast
qed

theorem update_weights_repeated_token_witness:
  "map_of (token_weights
      (update_weights \<lparr>name = ''Env'', decay = 1 / 2, token_weights = [(''X'', 8)]\<rparr>
         [''X'', ''Y'', ''X'', ''X''] 1)) ''X'' = Some (11 / 4)
   \<and> map_of (token_weights
      (update_weights \<lparr>name = ''Env'', decay = 1 / 2, token_weights = [(''X'', 8)]\<rparr>
         [''X'', ''X''] 1)) ''X'' = Some (7 / 2)
   \<and> map_of (token_weights
      (update_weights \<lparr>name = ''Env'', decay = 1 / 2, token_weights = [(''X'', 8)]\<rparr>
         [''X''] 1)) ''X'' = Some 5"
proof -
  let ?s = "\<lparr>name = ''Env'', decay = 1 / 2, token_weights = [(''X'', 8)]\<rparr>"
  have c: "count_list [''X'', ''Y'', ''X'', ''X''] ''X'' = 3" by simp
  have k: "(0::nat) < 3" by simp
  note th = update_weights_repeated_token [OF c k, of ?s 1]
  have a: "map_of (token_weights (update_weights ?s [''X'', ''Y'', ''X'', ''X''] 1)) ''X'' =
           Some (((\<lambda>w. w * decay ?s + 1) ^^ 3) (dict_get (token_weights ?s) ''X'' 0))"
    using th by blast
  have b: "map_of (token_weights (update_weights ?s [''X'', ''X''] 1)) ''X'' =
           Some ((dict_get (token_weights ?s) ''X'' 0 * decay ?s + 1) * decay ?s + 1)"
    using th by blast
  have o: "map_of (token_weights (update_weights ?s [''X''] 1)) ''X'' =
           Some (dict_get (token_weights ?s) ''X'' 0 * decay ?s + 1)"
    using th by blast
  show ?thesis
    unfolding a b o by (simp add: dict_get_def numeral_3_eq_3)
qed

text \<open>
  With decay 0.5, previous weight 2 and intensity 1 the weight 2 is a fixed point of the
  step: listing \<open>X\<close> twice leaves \<open>2 * 0.5 + 1\<close>, the value of a single listing.
\<close>

theorem update_twice_fixed_point:
  "map_of (token_weights
      (update_weights \<lparr>name = ''Env'', decay = 1 / 2, token_weights = [(''X'', 2)]\<rparr>
         [''X'', ''X''] 1)) ''X'' = Some (2 * (1 / 2) + 1)"
  by (simp add: dict_get_def dict_setitem_def)

subsection \<open>The demo scenario\<close>

text \<open>
  C5. With decay 0.9 and threshold 0.6, after observing \<open>Windows, PowerShell\<close> at 0.7,
  \<open>PandocInstalled, PDFExportSuccess\<close> at 0.8 and \<open>PowerShell\<close> at 0.6, the weight of
  \<open>PowerShell\<close> is \<open>0.7 * 0.9 + 0.6 = 1.23\<close>, the three hypotheses hold, and the policy
  returns the direct-conversion record.
\<close>

theorem demo_run:
  "decay (mem demo_env) = 9 / 10 \<and> threshold demo_env = 6 / 10
   \<and> token_weights (mem demo_env) =
       [(''Windows'', 7 / 10), (''PowerShell'', 7 / 10 * (9 / 10) + 6 / 10),
        (''PandocInstalled'', 8 / 10), (''PDFExportSuccess'', 8 / 10)]
   \<and> dict_get (token_weights (mem demo_env)) ''PowerShell'' 0 = 123 / 100
   \<and> hypothesis demo_env ''Windows'' \<and> hypothesis demo_env ''PowerShell''
   \<and> hypothesis demo_env ''PandocInstalled''
   \<and> snd demo_environment_awareness =
       [(''assumption'', ''Windows + PowerShell + Pandoc present''),
        (''action'', ''Provide direct conversion command''),
        (''command'', ''pandoc \"'' @ demo_path @ ''\" -o \"'' @ slice_drop_last3 demo_path @
                      ''.pdf\" --pdf-engine=xelatex'')]
   \<and> slice_drop_last3 demo_path @ ''.md'' = demo_path"
proof -
  have sl: "slice_drop_last3 demo_path @ ''.md'' = demo_path"
    by (simp add: demo_path_def slice_drop_last3_def)
  have tw: "token_weights (mem demo_env) =
       [(''Windows'', 7 / 10), (''PowerShell'', 7 / 10 * (9 / 10) + 6 / 10),
        (''PandocInstalled'', 8 / 10), (''PDFExportSuccess'', 8 / 10)]"
    by (simp add: demo_env_def run_simps)
  have par: "decay (mem demo_env) = 9 / 10 \<and> threshold demo_env = 6 / 10"
    by (simp add: demo_env_def run_simps)
  have ps: "dict_get (token_weights (mem demo_env)) ''PowerShell'' 0 = 123 / 100"
    unfolding tw by (simp add: dict_get_def)
  have hyps: "hypothesis demo_env ''Windows'' \<and> hypothesis demo_env ''PowerShell''
      \<and> hypothesis demo_env ''PandocInstalled''"
    unfolding hypothesis_iff tw using par by (simp add: dict_get_def)
  have dec: "snd demo_environment_awareness =
       [(''assumption'', ''Windows + PowerShell + Pandoc present''),
        (''action'', ''Provide direct conversion command''),
        (''command'', ''pandoc \"'' @ demo_path @ ''\" -o \"'' @ slice_drop_last3 demo_path @
                      ''.pdf\" --pdf-engine=xelatex'')]"
    using hyps by (simp add: demo_environment_awareness_def policy_for_pdf_request_def
        default_engine_def)
  from tw par ps hyps dec sl show ?thesis by blast
qed

subsection \<open>Decaying\<close>

lemma update_append_notin:
  "k \<notin> fst ` set xs \<Longrightarrow> AList.update k v (xs @ ys) = xs @ AList.update k v ys"
  by (induction xs) auto

lemma delete_notin: "k \<notin> fst ` set xs \<Longrightarrow> AList.delete k xs = xs"
  by (induction xs) auto

lemma delete_append: "AList.delete k (xs @ ys) = AList.delete k xs @ AList.delete k ys"
  by (induction xs) auto

lemma map_of_append_notin:
  "k \<notin> fst ` set xs \<Longrightarrow> map_of (xs @ ys) k = map_of ys k"
  by (induction xs) auto

lemma decay_loop_inv:
  assumes "distinct (map fst (done @ rest))"
  shows "decay_loop (map fst rest) (s\<lparr>token_weights := done @ rest\<rparr>) =
           Inr (s\<lparr>token_weights := done @ decay_pass_spec (decay s) rest\<rparr>)"
  using assms
proof (induction rest arbitrary: "done")
  case Nil
  show ?case by (simp add: decay_pass_spec_def)
next
  case (Cons kw rest)
  obtain k w where kw: "kw = (k, w)" by (cases kw)
  from Cons.prems kw have nd: "k \<notin> fst ` set done" and nr: "k \<notin> fst ` set rest"
    by auto
  let ?d = "decay s"
  have get0: "dict_getitem (done @ (k, w) # rest) k = Inr w"
    using nd by (simp add: dict_getitem_def map_of_append_notin del: map_of_append)
  have set1: "dict_setitem (done @ (k, w) # rest) k (w * ?d) = done @ (k, w * ?d) # rest"
    using nd by (simp add: dict_setitem_def update_append_notin)
  have get1: "dict_getitem (done @ (k, w * ?d) # rest) k = Inr (w * ?d)"
    using nd by (simp add: dict_getitem_def map_of_append_notin del: map_of_append)
  have del1: "dict_delitem (done @ (k, w * ?d) # rest) k = Inr (done @ rest)"
    using nd nr by (simp add: dict_delitem_def delete_append delete_notin)
  show ?case
  proof (cases "w * ?d < epsilon")
    case True
    have ih: "decay_loop (map fst rest) (s\<lparr>token_weights := done @ rest\<rparr>) =
           Inr (s\<lparr>token_weights := done @ decay_pass_spec ?d rest\<rparr>)"
      using Cons.IH [of "done"] Cons.prems by simp
    show ?thesis
      using True by (simp add: kw get0 set1 get1 del1 ih decay_pass_spec_def)
  next
    case False
    have dist: "distinct (map fst ((done @ [(k, w * ?d)]) @ rest))"
      using Cons.prems kw by auto
    have ih: "decay_loop (map fst rest) (s\<lparr>token_weights := (done @ [(k, w * ?d)]) @ rest\<rparr>) =
           Inr (s\<lparr>token_weights := (done @ [(k, w * ?d)]) @ decay_pass_spec ?d rest\<rparr>)"
      using Cons.IH [OF dist] .
    show ?thesis
      using False ih by (simp add: kw get0 set1 get1 decay_pass_spec_def)
  qed
qed

lemma decay_weights_eq:
  assumes "wf_dict (token_weights s)"
  shows "decay_weights s = Inr (s\<lparr>token_weights := decay_pass_spec (decay s) (token_weights s)\<rparr>)"
  using decay_loop_inv [of "[]" "token_weights s" s] assms
  by (simp add: decay_weights_def dict_keys_def wf_dict_def)

lemma map_of_decay_pass_spec:
  "map_of (decay_pass_spec dc d) k =
     (case map_of d k of None \<Rightarrow> None
      | Some w \<Rightarrow> if w * dc < epsilon then None else Some (w * dc))"
  if "wf_dict d"
  using that unfolding wf_dict_def decay_pass_spec_def
proof (induction d)
  case Nil
  show ?case by simp
next
  case (Cons kw d)
  obtain k' w' where kw: "kw = (k', w')" by (cases kw)
  from Cons.prems kw have nk: "k' \<notin> fst ` set d" and dd: "distinct (map fst d)" by auto
  have none: "map_of [(k, w)\<leftarrow>map (\<lambda>(k, w). (k, w * dc)) d . \<not> w < epsilon] k' = None"
    using nk by (auto simp: map_of_eq_None_iff image_iff)
  show ?case
    using Cons.IH [OF dd] none nk
    by (auto simp: kw map_of_eq_None_iff image_iff split: option.splits)
qed

lemma wf_decay_pass_spec: "wf_dict d \<Longrightarrow> wf_dict (decay_pass_spec dc d)"
  unfolding wf_dict_def decay_pass_spec_def
  by (induction d) (auto simp: image_iff)


lemma decay_pass_spec_ge: "(k, w) \<in> set (decay_pass_spec dc d) \<Longrightarrow> \<not> w < epsilon"
  by (auto simp: decay_pass_spec_def)

text \<open>
  C4. On a dictionary (unique keys) a decay pass returns without an exception; it
  multiplies every stored weight by the decay factor and removes exactly the entries whose
  new weight is below \<open>1e-6\<close>, which is the specification's two-step description
  \<open>decay_pass_spec\<close>. After the pass no entry with a weight below \<open>1e-6\<close> remains.
\<close>

theorem decay_weights_pass:
  assumes "wf_dict (token_weights self)"
  shows "decay_weights self =
           Inr (self\<lparr>token_weights := decay_pass_spec (decay self) (token_weights self)\<rparr>)
       \<and> (\<forall>k. map_of (decay_pass_spec (decay self) (token_weights self)) k =
            (case map_of (token_weights self) k of
               None \<Rightarrow> None
             | Some w \<Rightarrow> if w * decay self < epsilon then None else Some (w * decay self)))
       \<and> (\<forall>(k, w) \<in> set (decay_pass_spec (decay self) (token_weights self)). \<not> w < epsilon)
       \<and> wf_dict (decay_pass_spec (decay self) (token_weights self))"
proof -
  have a: "decay_weights self =
           Inr (self\<lparr>token_weights := decay_pass_spec (decay self) (token_weights self)\<rparr>)"
    using assms by (rule decay_weights_eq)
  have b: "\<forall>k. map_of (decay_pass_spec (decay self) (token_weights self)) k =
            (case map_of (token_weights self) k of
               None \<Rightarrow> None
             | Some w \<Rightarrow> if w * decay self < epsilon then None else Some (w * decay self))"
    using assms by (simp add: map_of_decay_pass_spec)
  have c: "\<forall>(k, w) \<in> set (decay_pass_spec (decay self) (token_weights self)). \<not> w < epsilon"
    using decay_pass_spec_ge by blast
  have d: "wf_dict (decay_pass_spec (decay self) (token_weights self))"
    using assms by (rule wf_decay_pass_spec)
  from a b c d show ?thesis by blast
qed

theorem decay_weights_pass_witness:
  "decay_weights \<lparr>name = ''Env'', decay = 1 / 2,
       token_weights = [(''A'', 1), (''B'', 1 / 1000000), (''C'', 3)]\<rparr> =
     Inr \<lparr>name = ''Env'', decay = 1 / 2, token_weights = [(''A'', 1 / 2), (''C'', 3 / 2)]\<rparr>"
proof -
  let ?s = "\<lparr>name = ''Env'', decay = 1 / 2,
       token_weights = [(''A'', 1), (''B'', 1 / 1000000), (''C'', 3)]\<rparr>"
  have wf: "wf_dict (token_weights ?s)" by (simp add: wf_dict_def)
  have "decay_weights ?s =
           Inr (?s\<lparr>token_weights := decay_pass_spec (decay ?s) (token_weights ?s)\<rparr>)"
    using decay_weights_pass [OF wf] by blast
  then show ?thesis by (simp add: decay_pass_spec_def epsilon_def)
qed

subsection \<open>Call sequences\<close>

lemma set_update_subset: "set (AList.update k v al) \<subseteq> insert (k, v) (set al)"
  by (induction al) auto

lemma dict_get_nonneg: "nonneg_dict d \<Longrightarrow> 0 \<le> dict_get d k 0"
  by (auto simp: nonneg_dict_def dict_get_def split: option.splits dest: map_of_SomeD)

lemma nonneg_setitem: "nonneg_dict d \<Longrightarrow> 0 \<le> v \<Longrightarrow> nonneg_dict (dict_setitem d k v)"
  using set_update_subset [of k v d] by (auto simp: nonneg_dict_def dict_setitem_def)

lemma update_weights_nonneg:
  "nonneg_dict (token_weights self) \<Longrightarrow> 0 \<le> decay self \<Longrightarrow> 0 \<le> I \<Longrightarrow>
   nonneg_dict (token_weights (update_weights self ts I))"
proof (induction ts arbitrary: self)
  case Nil
  then show ?case by simp
next
  case (Cons t ts)
  have "0 \<le> dict_get (token_weights self) t 0 * decay self + I"
    using Cons.prems by (simp add: dict_get_nonneg)
  then show ?case
    using Cons.prems by (simp add: Let_def Cons.IH nonneg_setitem)
qed

lemma decay_pass_spec_nonneg:
  "nonneg_dict d \<Longrightarrow> 0 \<le> dc \<Longrightarrow> nonneg_dict (decay_pass_spec dc d)"
  by (auto simp: nonneg_dict_def decay_pass_spec_def)

lemma apply_call_inv:
  assumes "store_inv dc s" and "0 \<le> dc" and "positive_call c"
  shows "\<exists>s'. apply_call s c = Inr s' \<and> store_inv dc s'"
proof (cases c)
  case (Update ts I)
  with assms show ?thesis
    by (simp add: store_inv_def update_weights_wf update_weights_nonneg)
next
  case Decay
  with assms show ?thesis
    by (simp add: store_inv_def decay_weights_eq wf_decay_pass_spec decay_pass_spec_nonneg)
qed

lemma run_calls_inv:
  assumes "store_inv dc s" and "0 \<le> dc" and "\<forall>c \<in> set cs. positive_call c"
  shows "\<exists>s'. run_calls s cs = Inr s' \<and> store_inv dc s'"
  using assms
proof (induction cs arbitrary: s)
  case Nil
  then show ?case by simp
next
  case (Cons c cs)
  from apply_call_inv [OF Cons.prems(1,2), of c] Cons.prems(3)
  obtain s1 where s1: "apply_call s c = Inr s1" "store_inv dc s1" by auto
  from Cons.IH [OF s1(2) Cons.prems(2)] Cons.prems(3)
  obtain s' where "run_calls s1 cs = Inr s'" "store_inv dc s'" by auto
  with s1 show ?case by simp
qed

text \<open>
  C6. Starting from a fresh store with a decay factor \<open>0 < decay \<le> 1\<close>, every sequence
  of update calls with positive intensity and decay calls runs without an exception, and
  after every prefix of the sequence all stored weights are at least 0.
\<close>

theorem weights_never_negative:
  assumes "0 < dc" and "dc \<le> 1" and "\<forall>c \<in> set calls. positive_call c"
  shows "\<forall>n \<le> length calls. \<exists>s.
           run_calls (TokenMemoryShim_init nm dc) (take n calls) = Inr s
           \<and> (\<forall>(k, w) \<in> set (token_weights s). 0 \<le> w)"
proof (intro allI impI)
  fix n assume "n \<le> length calls"
  have init: "store_inv dc (TokenMemoryShim_init nm dc)"
    by (simp add: store_inv_def TokenMemoryShim_init_def wf_dict_def nonneg_dict_def)
  have pos: "\<forall>c \<in> set (take n calls). positive_call c"
    using assms(3) by (meson in_set_takeD)
  from run_calls_inv [OF init _ pos] assms(1)
  obtain s where "run_calls (TokenMemoryShim_init nm dc) (take n calls) = Inr s" "store_inv dc s"
    by auto
  then show "\<exists>s. run_calls (TokenMemoryShim_init nm dc) (take n calls) = Inr s
           \<and> (\<forall>(k, w) \<in> set (token_weights s). 0 \<le> w)"
    by (auto simp: store_inv_def nonneg_dict_def)
qed

theorem weights_never_negative_witness:
  "run_calls (TokenMemoryShim_init ''Env'' (1 / 2))
      [Update [''A'', ''B''] 1, Decay, Update [''A''] (1 / 1000000), Decay, Decay] =
     Inr \<lparr>name = ''Env'', decay = 1 / 2, token_weights = [(''A'', 250001 / 4000000), (''B'', 1 / 8)]\<rparr>
   \<and> (0::real) \<le> 250001 / 4000000 \<and> (0::real) \<le> 1 / 8"
proof -
  let ?cs = "[Update [''A'', ''B''] 1, Decay, Update [''A''] (1 / 1000000), Decay, Decay]"
  have d1: "(0::real) < 1 / 2" and d2: "(1 / 2 :: real) \<le> 1" by simp_all
  have pos: "\<forall>c \<in> set ?cs. positive_call c" by simp
  have run: "run_calls (TokenMemoryShim_init ''Env'' (1 / 2)) ?cs =
     Inr \<lparr>name = ''Env'', decay = 1 / 2, token_weights = [(''A'', 250001 / 4000000), (''B'', 1 / 8)]\<rparr>"
    by (simp add: TokenMemoryShim_init_def decay_weights_def dict_keys_def dict_getitem_def
        dict_setitem_def dict_delitem_def dict_get_def epsilon_def Let_def)
  have len: "5 \<le> length ?cs" by simp
  have tk: "take 5 ?cs = ?cs" by simp
  from weights_never_negative [OF d1 d2 pos, of "''Env''"] len
  have "\<exists>s. run_calls (TokenMemoryShim_init ''Env'' (1 / 2)) (take 5 ?cs) = Inr s
           \<and> (\<forall>(k, w) \<in> set (token_weights s). 0 \<le> w)"
    by blast
  then show ?thesis
    unfolding tk run by simp
qed

subsection \<open>Repeated decay\<close>

lemma below_epsilon_mono:
  assumes "0 \<le> d" and "d \<le> 1" and "w * d ^ j < epsilon" and "j \<le> m"
  shows "w * d ^ m < epsilon"
proof -
  have eps: "0 < epsilon" by (simp add: epsilon_def)
  let ?a = "w * d ^ j" and ?c = "d ^ (m - j)"
  have c: "0 \<le> ?c" "?c \<le> 1"
    using assms(1,2) by (simp_all add: power_le_one)
  have split: "w * d ^ m = ?a * ?c"
    using assms(4) by (simp add: power_add [symmetric])
  show ?thesis
  proof (cases "?a \<le> 0")
    case True
    then have "?a * ?c \<le> 0" using c(1) by (simp add: mult_nonpos_nonneg)
    with eps show ?thesis unfolding split by linarith
  next
    case False
    then have "?a * ?c \<le> ?a" using c(2) by (simp add: mult_left_le)
    with assms(3) show ?thesis unfolding split by linarith
  qed
qed

lemma decay_passes_absent:
  assumes "wf_dict (token_weights s)" and "map_of (token_weights s) t = None"
  shows "\<exists>s'. decay_passes n s = Inr s' \<and> decay s' = decay s \<and> wf_dict (token_weights s')
              \<and> map_of (token_weights s') t = None"
  using assms
proof (induction n arbitrary: s)
  case 0
  then show ?case by simp
next
  case (Suc n)
  let ?s1 = "s\<lparr>token_weights := decay_pass_spec (decay s) (token_weights s)\<rparr>"
  have step: "decay_weights s = Inr ?s1" using Suc.prems(1) by (rule decay_weights_eq)
  have wf1: "wf_dict (token_weights ?s1)" using Suc.prems(1) by (simp add: wf_decay_pass_spec)
  have abs1: "map_of (token_weights ?s1) t = None"
    using Suc.prems by (simp add: map_of_decay_pass_spec)
  from Suc.IH [OF wf1 abs1] show ?case by (simp add: step)
qed

lemma decay_passes_lookup:
  assumes "wf_dict (token_weights s)" and "map_of (token_weights s) t = Some w"
    and "0 \<le> decay s" and "decay s \<le> 1"
  shows "\<exists>s'. decay_passes n s = Inr s' \<and> decay s' = decay s \<and> wf_dict (token_weights s')
              \<and> map_of (token_weights s') t =
                  (if 0 < n \<and> w * decay s ^ n < epsilon then None else Some (w * decay s ^ n))"
  using assms
proof (induction n arbitrary: s w)
  case 0
  then show ?case by simp
next
  case (Suc n)
  let ?d = "decay s"
  let ?s1 = "s\<lparr>token_weights := decay_pass_spec ?d (token_weights s)\<rparr>"
  have step: "decay_weights s = Inr ?s1" using Suc.prems(1) by (rule decay_weights_eq)
  have wf1: "wf_dict (token_weights ?s1)" using Suc.prems(1) by (simp add: wf_decay_pass_spec)
  have d1: "decay ?s1 = ?d" by simp
  show ?case
  proof (cases "w * ?d < epsilon")
    case True
    have abs1: "map_of (token_weights ?s1) t = None"
      using Suc.prems(1,2) True by (simp add: map_of_decay_pass_spec)
    from decay_passes_absent [OF wf1 abs1, of n]
    obtain s' where s': "decay_passes n ?s1 = Inr s'" "decay s' = ?d"
      "wf_dict (token_weights s')" "map_of (token_weights s') t = None" by auto
    have "w * ?d ^ 1 < epsilon" using True by simp
    from below_epsilon_mono [OF Suc.prems(3,4) this, of "Suc n"]
    have "w * ?d ^ Suc n < epsilon" by simp
    with s' show ?thesis by (simp add: step)
  next
    case False
    have pres1: "map_of (token_weights ?s1) t = Some (w * ?d)"
      using Suc.prems(1,2) False by (simp add: map_of_decay_pass_spec)
    from Suc.IH [OF wf1 pres1] Suc.prems(3,4)
    obtain s' where s': "decay_passes n ?s1 = Inr s'" "decay s' = ?d"
      "wf_dict (token_weights s')"
      "map_of (token_weights s') t =
         (if 0 < n \<and> w * ?d * ?d ^ n < epsilon then None else Some (w * ?d * ?d ^ n))"
      by auto
    have "map_of (token_weights s') t =
         (if w * ?d ^ Suc n < epsilon then None else Some (w * ?d ^ Suc n))"
      using s'(4) False by (cases n) (simp_all add: mult.assoc)
    with s' show ?thesis by (simp add: step)
  qed
qed

lemma eventually_below_epsilon:
  assumes "0 < d" and "d < 1"
  shows "\<exists>n>0. w * d ^ n < epsilon"
proof (cases "w \<le> 0")
  case True
  have "w * d ^ 1 \<le> 0" using True assms(1) by (simp add: mult_nonpos_nonneg)
  moreover have "0 < epsilon" by (simp add: epsilon_def)
  ultimately have "w * d ^ 1 < epsilon" by linarith
  then show ?thesis by blast
next
  case False
  then have w: "0 < w" by simp
  have "0 < epsilon / w" using w by (simp add: epsilon_def)
  from real_arch_pow_inv [OF this assms(2)] obtain n where n: "d ^ n < epsilon / w" by blast
  then have "w * d ^ n < epsilon" using w by (simp add: pos_less_divide_eq mult.commute)
  from below_epsilon_mono [OF _ _ this, of "Suc n"] assms
  have "w * d ^ Suc n < epsilon" by simp
  then show ?thesis by blast
qed


lemma run_calls_untouched_absent:
  assumes "wf_dict (token_weights s)" and "map_of (token_weights s) t = None"
    and "\<forall>c \<in> set cs. \<not> touches t c"
  shows "\<exists>s'. run_calls s cs = Inr s' \<and> decay s' = decay s \<and> wf_dict (token_weights s')
              \<and> map_of (token_weights s') t = None"
  using assms
proof (induction cs arbitrary: s)
  case Nil
  then show ?case by simp
next
  case (Cons c cs)
  show ?case
  proof (cases c)
    case (Update ts I)
    let ?s1 = "update_weights s ts I"
    from Cons.prems(3) Update have nt: "t \<notin> set ts" by simp
    have wf1: "wf_dict (token_weights ?s1)" using Cons.prems(1) by (rule update_weights_wf)
    have abs1: "map_of (token_weights ?s1) t = None"
      using nt Cons.prems(2) by (simp add: update_weights_lookup)
    from Cons.IH [OF wf1 abs1] Cons.prems(3) show ?thesis by (simp add: Update)
  next
    case Decay
    let ?s1 = "s\<lparr>token_weights := decay_pass_spec (decay s) (token_weights s)\<rparr>"
    have step: "decay_weights s = Inr ?s1" using Cons.prems(1) by (rule decay_weights_eq)
    have wf1: "wf_dict (token_weights ?s1)" using Cons.prems(1) by (simp add: wf_decay_pass_spec)
    have abs1: "map_of (token_weights ?s1) t = None"
      using Cons.prems(1,2) by (simp add: map_of_decay_pass_spec)
    from Cons.IH [OF wf1 abs1] Cons.prems(3) show ?thesis by (simp add: Decay step)
  qed
qed

lemma run_calls_untouched_lookup:
  assumes "wf_dict (token_weights s)" and "map_of (token_weights s) t = Some w"
    and "0 \<le> decay s" and "decay s \<le> 1" and "\<forall>c \<in> set cs. \<not> touches t c"
  shows "\<exists>s'. run_calls s cs = Inr s' \<and> decay s' = decay s \<and> wf_dict (token_weights s')
              \<and> map_of (token_weights s') t =
                  (if 0 < count_list cs Decay \<and> w * decay s ^ count_list cs Decay < epsilon
                   then None else Some (w * decay s ^ count_list cs Decay))"
  using assms
proof (induction cs arbitrary: s w)
  case Nil
  then show ?case by simp
next
  case (Cons c cs)
  let ?d = "decay s"
  let ?j = "count_list cs Decay"
  show ?case
  proof (cases c)
    case (Update ts I)
    let ?s1 = "update_weights s ts I"
    from Cons.prems(5) Update have nt: "t \<notin> set ts" by simp
    have wf1: "wf_dict (token_weights ?s1)" using Cons.prems(1) by (rule update_weights_wf)
    have pres1: "map_of (token_weights ?s1) t = Some w"
      using nt Cons.prems(2) by (simp add: update_weights_lookup)
    have rest: "\<forall>c \<in> set cs. \<not> touches t c" using Cons.prems(5) by simp
    note ih = Cons.IH [OF wf1 pres1 _ _ rest, unfolded update_weights_decay, OF Cons.prems(3,4)]
    have run: "run_calls s (c # cs) = run_calls ?s1 cs" by (simp add: Update)
    have cnt: "count_list (c # cs) Decay = ?j" by (simp add: Update)
    show ?thesis unfolding run cnt by (rule ih)
  next
    case Decay
    let ?s1 = "s\<lparr>token_weights := decay_pass_spec ?d (token_weights s)\<rparr>"
    have step: "decay_weights s = Inr ?s1" using Cons.prems(1) by (rule decay_weights_eq)
    have wf1: "wf_dict (token_weights ?s1)" using Cons.prems(1) by (simp add: wf_decay_pass_spec)
    have rest: "\<forall>c \<in> set cs. \<not> touches t c" using Cons.prems(5) by simp
    show ?thesis
    proof (cases "w * ?d < epsilon")
      case True
      have abs1: "map_of (token_weights ?s1) t = None"
        using Cons.prems(1,2) True by (simp add: map_of_decay_pass_spec)
      from run_calls_untouched_absent [OF wf1 abs1 rest]
      obtain s' where s': "run_calls ?s1 cs = Inr s'" "decay s' = ?d"
        "wf_dict (token_weights s')" "map_of (token_weights s') t = None" by auto
      have "w * ?d ^ 1 < epsilon" using True by simp
      from below_epsilon_mono [OF Cons.prems(3,4) this, of "Suc ?j"]
      have "w * ?d ^ Suc ?j < epsilon" by simp
      with s' show ?thesis by (simp add: Decay step)
    next
      case False
      have pres1: "map_of (token_weights ?s1) t = Some (w * ?d)"
        using Cons.prems(1,2) False by (simp add: map_of_decay_pass_spec)
      from Cons.IH [OF wf1 pres1 _ _ rest] Cons.prems(3,4)
      obtain s' where s': "run_calls ?s1 cs = Inr s'" "decay s' = ?d"
        "wf_dict (token_weights s')"
        "map_of (token_weights s') t =
           (if 0 < ?j \<and> w * ?d * ?d ^ ?j < epsilon then None else Some (w * ?d * ?d ^ ?j))"
        by auto
      have fin: "map_of (token_weights s') t =
           (if w * ?d ^ Suc ?j < epsilon then None else Some (w * ?d ^ Suc ?j))"
        using s'(4) False by (cases "?j") (simp_all add: mult.assoc)
      from s'(1,2,3) fin show ?thesis by (simp add: Decay step)
    qed
  qed
qed

text \<open>
  C7, for the cases in which removal happens. Let a token be stored with a weight \<open>w\<close>
  (a real number, so a finite weight) in a store with \<open>0 < decay \<le> 1\<close>, and let the
  caller run any calls that never update this token. If \<open>decay < 1\<close>, or \<open>decay = 1\<close> and
  \<open>w\<close> is below \<open>1e-6\<close>, there is a number \<open>n\<close> such that the token is absent after every
  such run with at least \<open>n\<close> decay passes, and in particular after any \<open>m \<ge> n\<close> decay
  passes in a row. If \<open>decay = 1\<close> and \<open>w\<close> is at least \<open>1e-6\<close>, the token keeps the
  weight \<open>w\<close> for ever. A weight \<open>w \<ge> 0\<close> never grows and never becomes negative while the
  token is not updated.
\<close>

theorem decay_eventually_removes:
  assumes "wf_dict (token_weights self)" and "map_of (token_weights self) t = Some w"
    and "0 < decay self" and "decay self \<le> 1"
  shows "(decay self < 1 \<or> w < epsilon \<longrightarrow>
           (\<exists>n. (\<forall>cs. (\<forall>c \<in> set cs. \<not> touches t c) \<and> n \<le> count_list cs Decay \<longrightarrow>
                      (\<exists>s'. run_calls self cs = Inr s' \<and> map_of (token_weights s') t = None))
               \<and> (\<forall>m\<ge>n. \<exists>s'. decay_passes m self = Inr s'
                              \<and> map_of (token_weights s') t = None)))
       \<and> (decay self = 1 \<and> epsilon \<le> w \<longrightarrow>
           (\<forall>cs. (\<forall>c \<in> set cs. \<not> touches t c) \<longrightarrow>
                 (\<exists>s'. run_calls self cs = Inr s' \<and> map_of (token_weights s') t = Some w)))
       \<and> (0 \<le> w \<longrightarrow>
           (\<forall>cs. (\<forall>c \<in> set cs. \<not> touches t c) \<longrightarrow>
                 (\<exists>s'. run_calls self cs = Inr s'
                    \<and> (case map_of (token_weights s') t of
                         None \<Rightarrow> True | Some w' \<Rightarrow> 0 \<le> w' \<and> w' \<le> w))))"
proof (intro conjI impI)
  let ?d = "decay self"
  have d0: "0 \<le> ?d" using assms(3) by simp
  assume c: "?d < 1 \<or> w < epsilon"
  have "\<exists>n>0. w * ?d ^ n < epsilon"
  proof (cases "?d < 1")
    case True
    with assms(3) show ?thesis by (rule eventually_below_epsilon)
  next
    case False
    with c have "w * ?d ^ 0 < epsilon" by simp
    from below_epsilon_mono [OF d0 assms(4) this, of 1]
    have "w * ?d ^ 1 < epsilon" by simp
    then show ?thesis by blast
  qed
  then obtain n where n: "0 < n" "w * ?d ^ n < epsilon" by blast
  have low: "w * ?d ^ j < epsilon \<and> 0 < j" if "n \<le> j" for j
    using below_epsilon_mono [OF d0 assms(4) n(2) that] n(1) that by simp
  have runs: "\<forall>cs. (\<forall>c \<in> set cs. \<not> touches t c) \<and> n \<le> count_list cs Decay \<longrightarrow>
                      (\<exists>s'. run_calls self cs = Inr s' \<and> map_of (token_weights s') t = None)"
  proof (intro allI impI)
    fix cs assume h: "(\<forall>c \<in> set cs. \<not> touches t c) \<and> n \<le> count_list cs Decay"
    from run_calls_untouched_lookup [OF assms(1,2) d0 assms(4), of cs] h low [of "count_list cs Decay"]
    show "\<exists>s'. run_calls self cs = Inr s' \<and> map_of (token_weights s') t = None"
      by auto
  qed
  have passes: "\<forall>m\<ge>n. \<exists>s'. decay_passes m self = Inr s' \<and> map_of (token_weights s') t = None"
  proof (intro allI impI)
    fix m assume "n \<le> m"
    from decay_passes_lookup [OF assms(1,2) d0 assms(4), of m] low [OF this]
    show "\<exists>s'. decay_passes m self = Inr s' \<and> map_of (token_weights s') t = None"
      by auto
  qed
  from runs passes
  show "\<exists>n. (\<forall>cs. (\<forall>c \<in> set cs. \<not> touches t c) \<and> n \<le> count_list cs Decay \<longrightarrow>
                      (\<exists>s'. run_calls self cs = Inr s' \<and> map_of (token_weights s') t = None))
               \<and> (\<forall>m\<ge>n. \<exists>s'. decay_passes m self = Inr s'
                              \<and> map_of (token_weights s') t = None)"
    by blast
next
  let ?d = "decay self"
  have d0: "0 \<le> ?d" using assms(3) by simp
  assume one: "?d = 1 \<and> epsilon \<le> w"
  show "\<forall>cs. (\<forall>c \<in> set cs. \<not> touches t c) \<longrightarrow>
                 (\<exists>s'. run_calls self cs = Inr s' \<and> map_of (token_weights s') t = Some w)"
  proof (intro allI impI)
    fix cs assume h: "\<forall>c \<in> set cs. \<not> touches t c"
    from run_calls_untouched_lookup [OF assms(1,2) d0 assms(4) h] one
    show "\<exists>s'. run_calls self cs = Inr s' \<and> map_of (token_weights s') t = Some w"
      by auto
  qed
next
  let ?d = "decay self"
  have d0: "0 \<le> ?d" using assms(3) by simp
  assume w0: "0 \<le> w"
  show "\<forall>cs. (\<forall>c \<in> set cs. \<not> touches t c) \<longrightarrow>
                 (\<exists>s'. run_calls self cs = Inr s'
                    \<and> (case map_of (token_weights s') t of
                         None \<Rightarrow> True | Some w' \<Rightarrow> 0 \<le> w' \<and> w' \<le> w))"
  proof (intro allI impI)
    fix cs assume h: "\<forall>c \<in> set cs. \<not> touches t c"
    let ?j = "count_list cs Decay"
    have p: "0 \<le> ?d ^ ?j" "?d ^ ?j \<le> 1" using d0 assms(4) by (simp_all add: power_le_one)
    have b: "0 \<le> w * ?d ^ ?j" "w * ?d ^ ?j \<le> w"
      using w0 p by (simp_all add: mult_left_le)
    from run_calls_untouched_lookup [OF assms(1,2) d0 assms(4) h] b
    show "\<exists>s'. run_calls self cs = Inr s'
                    \<and> (case map_of (token_weights s') t of
                         None \<Rightarrow> True | Some w' \<Rightarrow> 0 \<le> w' \<and> w' \<le> w)"
      by auto
  qed
qed

theorem decay_eventually_removes_witness:
  "(\<exists>n s'. run_calls \<lparr>name = ''Env'', decay = 1 / 2, token_weights = [(''X'', 1)]\<rparr>
               (Update [''Y''] 1 # replicate n Decay) = Inr s'
        \<and> map_of (token_weights s') ''X'' = None)
   \<and> (\<exists>n s'. decay_passes n \<lparr>name = ''Env'', decay = 1 / 2, token_weights = [(''X'', 1)]\<rparr> = Inr s'
        \<and> map_of (token_weights s') ''X'' = None)
   \<and> (\<exists>n s'. run_calls \<lparr>name = ''Env'', decay = 1, token_weights = [(''X'', 1 / 10000000)]\<rparr>
               (replicate n Decay) = Inr s'
        \<and> map_of (token_weights s') ''X'' = None)
   \<and> (\<exists>s'. run_calls \<lparr>name = ''Env'', decay = 1, token_weights = [(''X'', 1)]\<rparr>
               [Decay, Update [''Y''] 1, Decay] = Inr s'
        \<and> map_of (token_weights s') ''X'' = Some 1)
   \<and> (\<exists>s'. run_calls \<lparr>name = ''Env'', decay = 1 / 2, token_weights = [(''X'', 1)]\<rparr>
               [Decay, Update [''Y''] 1] = Inr s'
        \<and> (case map_of (token_weights s') ''X'' of
              None \<Rightarrow> True | Some w' \<Rightarrow> 0 \<le> w' \<and> w' \<le> 1))"
proof -
  let ?a = "\<lparr>name = ''Env'', decay = 1 / 2, token_weights = [(''X'', 1 :: real)]\<rparr>"
  let ?b = "\<lparr>name = ''Env'', decay = 1, token_weights = [(''X'', 1 :: real)]\<rparr>"
  let ?c = "\<lparr>name = ''Env'', decay = 1, token_weights = [(''X'', 1 / 10000000 :: real)]\<rparr>"
  have cnt: "count_list (replicate n Decay) Decay = n" for n
    by (induction n) simp_all
  have unt: "\<forall>c \<in> set (replicate n Decay). \<not> touches ''X'' c" for n
    by simp
  have wfa: "wf_dict (token_weights ?a)" and wfb: "wf_dict (token_weights ?b)"
    and wfc: "wf_dict (token_weights ?c)"
    by (simp_all add: wf_dict_def)
  have la: "map_of (token_weights ?a) ''X'' = Some 1"
    and lb: "map_of (token_weights ?b) ''X'' = Some 1"
    and lc: "map_of (token_weights ?c) ''X'' = Some (1 / 10000000)"
    by simp_all
  have pa: "0 < decay ?a" "decay ?a \<le> 1" and pb: "0 < decay ?b" "decay ?b \<le> 1"
    and pc: "0 < decay ?c" "decay ?c \<le> 1"
    by simp_all
  note tha = decay_eventually_removes [OF wfa la pa]
  note thb = decay_eventually_removes [OF wfb lb pb]
  note thc = decay_eventually_removes [OF wfc lc pc]
  have ca: "decay ?a < 1 \<or> (1::real) < epsilon" by simp
  have cb: "decay ?b = 1 \<and> epsilon \<le> 1" by (simp add: epsilon_def)
  have cc: "decay ?c < 1 \<or> (1 / 10000000 :: real) < epsilon" by (simp add: epsilon_def)
  have w0: "(0::real) \<le> 1" by simp
  from tha ca obtain n where
    n1: "\<forall>cs. (\<forall>c \<in> set cs. \<not> touches ''X'' c) \<and> n \<le> count_list cs Decay \<longrightarrow>
            (\<exists>s'. run_calls ?a cs = Inr s' \<and> map_of (token_weights s') ''X'' = None)"
    and n2: "\<forall>m\<ge>n. \<exists>s'. decay_passes m ?a = Inr s' \<and> map_of (token_weights s') ''X'' = None"
    by blast
  have "(\<forall>c \<in> set (Update [''Y''] 1 # replicate n Decay). \<not> touches ''X'' c)
        \<and> n \<le> count_list (Update [''Y''] 1 # replicate n Decay) Decay"
    by (simp add: cnt)
  with n1 have r1: "\<exists>n s'. run_calls ?a (Update [''Y''] 1 # replicate n Decay) = Inr s'
        \<and> map_of (token_weights s') ''X'' = None"
    by blast
  from n2 have r2: "\<exists>n s'. decay_passes n ?a = Inr s' \<and> map_of (token_weights s') ''X'' = None"
    by blast
  from thc cc obtain k where
    k1: "\<forall>cs. (\<forall>c \<in> set cs. \<not> touches ''X'' c) \<and> k \<le> count_list cs Decay \<longrightarrow>
            (\<exists>s'. run_calls ?c cs = Inr s' \<and> map_of (token_weights s') ''X'' = None)"
    by blast
  have "(\<forall>c \<in> set (replicate k Decay). \<not> touches ''X'' c) \<and> k \<le> count_list (replicate k Decay) Decay"
    by (simp add: cnt)
  with k1 have r3: "\<exists>n s'. run_calls ?c (replicate n Decay) = Inr s'
        \<and> map_of (token_weights s') ''X'' = None"
    by blast
  have u4: "\<forall>c \<in> set [Decay, Update [''Y''] 1, Decay]. \<not> touches ''X'' c" by simp
  from thb cb u4 have r4: "\<exists>s'. run_calls ?b [Decay, Update [''Y''] 1, Decay] = Inr s'
        \<and> map_of (token_weights s') ''X'' = Some 1"
    by blast
  have u5: "\<forall>c \<in> set [Decay, Update [''Y''] 1]. \<not> touches ''X'' c" by simp
  from tha w0 u5 have r5: "\<exists>s'. run_calls ?a [Decay, Update [''Y''] 1] = Inr s'
        \<and> (case map_of (token_weights s') ''X'' of
              None \<Rightarrow> True | Some w' \<Rightarrow> 0 \<le> w' \<and> w' \<le> 1)"
    by blast
  from r1 r2 r3 r4 r5 show ?thesis by blast
qed

text \<open>
  The specification allows the decay factor 1 (\<open>0 < decay \<le> 1\<close>); there a token of
  weight 1 survives any number of passes, so eventual removal fails on that boundary.
\<close>

theorem decay_one_never_removes:
  "\<not> (\<exists>n s'. decay_passes n \<lparr>name = ''Env'', decay = 1, token_weights = [(''X'', 1)]\<rparr> = Inr s'
               \<and> map_of (token_weights s') ''X'' = None)"
proof -
  let ?b = "\<lparr>name = ''Env'', decay = 1, token_weights = [(''X'', 1 :: real)]\<rparr>"
  have fp: "decay_weights ?b = Inr ?b"
    by (simp add: decay_weights_def dict_keys_def dict_getitem_def dict_setitem_def epsilon_def)
  have "decay_passes n ?b = Inr ?b" for n
    by (induction n) (simp_all add: fp)
  then show ?thesis by simp
qed

subsection \<open>The path argument\<close>

lemma slice_drop_last3_butlast: "slice_drop_last3 s = butlast (butlast (butlast s))"
  by (simp add: slice_drop_last3_def butlast_conv_take numeral_3_eq_3)

text \<open>
  C9. \<open>policy_for_pdf_request\<close> returns a decision record for every path, the empty one
  and those shorter than three characters included; nothing in it can raise. When all
  three hypotheses hold, the command embeds the path with its last three characters
  removed (nothing is left of a path of at most three characters) followed by \<open>.pdf\<close>;
  there is no check for an extension.
\<close>

theorem policy_total_in_path:
  fixes self :: RelationalController
  defines "W \<equiv> hypothesis (env self) ''Windows''"
    and "P \<equiv> hypothesis (env self) ''PowerShell''"
    and "T \<equiv> hypothesis (env self) ''PandocInstalled''"
  shows "map fst (policy_for_pdf_request self path engine) = [''assumption'', ''action'', ''command'']
       \<and> (W \<and> P \<and> T \<longrightarrow>
            map_of (policy_for_pdf_request self path engine) ''command'' =
              Some (''pandoc \"'' @ path @ ''\" -o \"'' @ butlast (butlast (butlast path)) @
                    ''.pdf\" --pdf-engine='' @ engine))
       \<and> (length path \<le> 3 \<longrightarrow> slice_drop_last3 path = [])
       \<and> (3 \<le> length path \<longrightarrow>
            (\<exists>suffix. length suffix = 3 \<and> path = slice_drop_last3 path @ suffix))
       \<and> slice_drop_last3 path = butlast (butlast (butlast path))"
proof -
  have a: "map fst (policy_for_pdf_request self path engine) = [''assumption'', ''action'', ''command'']"
    by (simp add: policy_for_pdf_request_def Let_def)
  have b: "W \<and> P \<and> T \<longrightarrow>
            map_of (policy_for_pdf_request self path engine) ''command'' =
              Some (''pandoc \"'' @ path @ ''\" -o \"'' @ butlast (butlast (butlast path)) @
                    ''.pdf\" --pdf-engine='' @ engine)"
    unfolding W_def P_def T_def
    by (simp add: policy_for_pdf_request_def Let_def slice_drop_last3_butlast)
  have c: "length path \<le> 3 \<longrightarrow> slice_drop_last3 path = []"
    by (simp add: slice_drop_last3_def)
  have d: "3 \<le> length path \<longrightarrow>
            (\<exists>suffix. length suffix = 3 \<and> path = slice_drop_last3 path @ suffix)"
  proof
    assume len: "3 \<le> length path"
    have "length (drop (length path - 3) path) = 3" using len by simp
    moreover have "path = slice_drop_last3 path @ drop (length path - 3) path"
      by (simp add: slice_drop_last3_def)
    ultimately show "\<exists>suffix. length suffix = 3 \<and> path = slice_drop_last3 path @ suffix"
      by blast
  qed
  from a b c d slice_drop_last3_butlast [of path] show ?thesis by blast
qed

theorem policy_total_in_path_witness:
  "map_of (policy_for_pdf_request
      (RelationalController_default\<lparr>env := observe (env RelationalController_default)
          [''Windows'', ''PowerShell'', ''PandocInstalled''] 1\<rparr>) ''notes'' ''xelatex'') ''command'' =
     Some ''pandoc \"notes\" -o \"no.pdf\" --pdf-engine=xelatex''
   \<and> map_of (policy_for_pdf_request
      (RelationalController_default\<lparr>env := observe (env RelationalController_default)
          [''Windows'', ''PowerShell'', ''PandocInstalled''] 1\<rparr>) ''ab'' ''xelatex'') ''command'' =
     Some ''pandoc \"ab\" -o \".pdf\" --pdf-engine=xelatex''
   \<and> map_of (policy_for_pdf_request
      (RelationalController_default\<lparr>env := observe (env RelationalController_default)
          [''Windows'', ''PowerShell'', ''PandocInstalled''] 1\<rparr>) [] ''xelatex'') ''command'' =
     Some ''pandoc \"\" -o \".pdf\" --pdf-engine=xelatex''
   \<and> slice_drop_last3 ''ab'' = [] \<and> ''notes'' = slice_drop_last3 ''notes'' @ ''tes''"
proof -
  let ?c = "RelationalController_default\<lparr>env := observe (env RelationalController_default)
          [''Windows'', ''PowerShell'', ''PandocInstalled''] 1\<rparr>"
  have h: "hypothesis (env ?c) ''Windows'' \<and> hypothesis (env ?c) ''PowerShell''
            \<and> hypothesis (env ?c) ''PandocInstalled''"
    by (simp add: run_simps)
  have r1: "map_of (policy_for_pdf_request ?c ''notes'' ''xelatex'') ''command'' =
      Some (''pandoc \"'' @ ''notes'' @ ''\" -o \"'' @ butlast (butlast (butlast ''notes'')) @
                    ''.pdf\" --pdf-engine='' @ ''xelatex'')"
    using policy_total_in_path [of ?c "''notes''" "''xelatex''"] h by blast
  have r2: "map_of (policy_for_pdf_request ?c ''ab'' ''xelatex'') ''command'' =
      Some (''pandoc \"'' @ ''ab'' @ ''\" -o \"'' @ butlast (butlast (butlast ''ab'')) @
                    ''.pdf\" --pdf-engine='' @ ''xelatex'')"
    using policy_total_in_path [of ?c "''ab''" "''xelatex''"] h by blast
  have r3: "map_of (policy_for_pdf_request ?c [] ''xelatex'') ''command'' =
      Some (''pandoc \"'' @ [] @ ''\" -o \"'' @ butlast (butlast (butlast [])) @
                    ''.pdf\" --pdf-engine='' @ ''xelatex'')"
    using policy_total_in_path [of ?c "[]" "''xelatex''"] h by blast
  have l2: "length ''ab'' \<le> 3" and l5: "3 \<le> length ''notes''" by simp_all
  have s2: "slice_drop_last3 ''ab'' = []"
    using policy_total_in_path [of ?c "''ab''" "''xelatex''"] l2 by blast
  have s5: "''notes'' = slice_drop_last3 ''notes'' @ ''tes''"
    by (simp add: slice_drop_last3_def)
  show ?thesis
    unfolding r1 r2 r3 using s2 s5 by simp
qed

subsection \<open>Hypotheses\<close>

lemma get_weights_ref_simps:
  "snd (get_weights_ref h self) = next_ref h"
  "cell (fst (get_weights_ref h self)) a =
     (if a = next_ref h then cell h (obj_token_weights self) else cell h a)"
  "next_ref (fst (get_weights_ref h self)) = Suc (next_ref h)"
  by (simp_all add: get_weights_ref_def Let_def)

lemma hypothesis_ref_result:
  "snd (hypothesis_ref h e key) =
     (obj_threshold e \<le> dict_get (cell h (obj_token_weights (obj_mem e))) key 0)"
  by (simp add: hypothesis_ref_def get_weights_ref_def Let_def)

lemma hypothesis_ref_heap: "fst (hypothesis_ref h e key) = fst (get_weights_ref h (obj_mem e))"
  by (simp add: hypothesis_ref_def split_beta)

text \<open>
  C3. \<open>hypothesis(key)\<close> is true exactly when the store's weight for \<open>key\<close> is at least
  the threshold, an absent key counting as weight 0, so that with a positive threshold an
  absent key gives \<open>False\<close>. The call allocates its own copy and changes no dictionary
  that existed before, the store's included; a different threshold changes the answer and
  nothing else.
\<close>

theorem hypothesis_threshold:
  fixes h :: heap and e :: EnvironmentStateTracker_obj
  defines "r \<equiv> obj_token_weights (obj_mem e)"
  defines "weight \<equiv> (\<lambda>key. case map_of (cell h r) key of None \<Rightarrow> 0 | Some w \<Rightarrow> w)"
  assumes "r < next_ref h"
  shows "snd (hypothesis_ref h e key) = (weight key \<ge> obj_threshold e)
       \<and> hypothesis (tracker_value h e) key = (weight key \<ge> obj_threshold e)
       \<and> (map_of (cell h r) key = None \<and> 0 < obj_threshold e \<longrightarrow>
            \<not> snd (hypothesis_ref h e key))
       \<and> (\<forall>a < next_ref h. cell (fst (hypothesis_ref h e key)) a = cell h a)
       \<and> tracker_value (fst (hypothesis_ref h e key)) e = tracker_value h e
       \<and> (\<forall>th. snd (hypothesis_ref h (e\<lparr>obj_threshold := th\<rparr>) key) = (weight key \<ge> th)
              \<and> fst (hypothesis_ref h (e\<lparr>obj_threshold := th\<rparr>) key) = fst (hypothesis_ref h e key))"
proof -
  have a: "snd (hypothesis_ref h e key) = (weight key \<ge> obj_threshold e)"
    by (simp add: hypothesis_ref_result dict_get_def weight_def r_def)
  have b: "hypothesis (tracker_value h e) key = (weight key \<ge> obj_threshold e)"
    by (simp add: hypothesis_def get_weights_def tracker_value_def shim_value_def dict_get_def
        weight_def r_def)
  have c: "map_of (cell h r) key = None \<and> 0 < obj_threshold e \<longrightarrow> \<not> snd (hypothesis_ref h e key)"
    unfolding a by (simp add: weight_def)
  have d: "\<forall>a < next_ref h. cell (fst (hypothesis_ref h e key)) a = cell h a"
    by (simp add: hypothesis_ref_heap get_weights_ref_simps)
  have e: "tracker_value (fst (hypothesis_ref h e key)) e = tracker_value h e"
    using assms(3)
    by (simp add: tracker_value_def shim_value_def hypothesis_ref_heap get_weights_ref_simps r_def)
  have f: "\<forall>th. snd (hypothesis_ref h (e\<lparr>obj_threshold := th\<rparr>) key) = (weight key \<ge> th)
              \<and> fst (hypothesis_ref h (e\<lparr>obj_threshold := th\<rparr>) key) = fst (hypothesis_ref h e key)"
    by (simp add: hypothesis_ref_result hypothesis_ref_heap dict_get_def weight_def r_def)
  from a b c d e f show ?thesis by blast
qed


theorem hypothesis_threshold_witness:
  "snd (hypothesis_ref \<lparr>cell = (\<lambda>a. [])(0 := [(''Windows'', 7 / 10)]), next_ref = 1\<rparr>
         \<lparr>obj_mem = \<lparr>obj_name = ''Env'', obj_decay = 9 / 10, obj_token_weights = 0\<rparr>,
          obj_threshold = 6 / 10\<rparr> ''Windows'')
   \<and> \<not> snd (hypothesis_ref \<lparr>cell = (\<lambda>a. [])(0 := [(''Windows'', 7 / 10)]), next_ref = 1\<rparr>
         \<lparr>obj_mem = \<lparr>obj_name = ''Env'', obj_decay = 9 / 10, obj_token_weights = 0\<rparr>,
          obj_threshold = 6 / 10\<rparr> ''PandocInstalled'')
   \<and> cell (fst (hypothesis_ref \<lparr>cell = (\<lambda>a. [])(0 := [(''Windows'', 7 / 10)]), next_ref = 1\<rparr>
         \<lparr>obj_mem = \<lparr>obj_name = ''Env'', obj_decay = 9 / 10, obj_token_weights = 0\<rparr>,
          obj_threshold = 6 / 10\<rparr> ''Windows'')) 0 = [(''Windows'', 7 / 10)]
   \<and> \<not> snd (hypothesis_ref \<lparr>cell = (\<lambda>a. [])(0 := [(''Windows'', 7 / 10)]), next_ref = 1\<rparr>
         \<lparr>obj_mem = \<lparr>obj_name = ''Env'', obj_decay = 9 / 10, obj_token_weights = 0\<rparr>,
          obj_threshold = 8 / 10\<rparr> ''Windows'')"
proof -
  let ?h = "\<lparr>cell = (\<lambda>a. [])(0 := [(''Windows'', 7 / 10 :: real)]), next_ref = 1\<rparr>"
  let ?e = "\<lparr>obj_mem = \<lparr>obj_name = ''Env'', obj_decay = 9 / 10, obj_token_weights = 0\<rparr>,
          obj_threshold = 6 / 10\<rparr>"
  have alloc: "obj_token_weights (obj_mem ?e) < next_ref ?h" by simp
  note th = hypothesis_threshold [OF alloc]
  have w: "snd (hypothesis_ref ?h ?e ''Windows'') =
      ((case map_of (cell ?h (obj_token_weights (obj_mem ?e))) ''Windows'' of
          None \<Rightarrow> 0 | Some w \<Rightarrow> w) \<ge> obj_threshold ?e)"
    using th [of "''Windows''"] by blast
  have absent: "map_of (cell ?h (obj_token_weights (obj_mem ?e))) ''PandocInstalled'' = None
      \<and> 0 < obj_threshold ?e" by simp
  have p: "\<not> snd (hypothesis_ref ?h ?e ''PandocInstalled'')"
    using th [of "''PandocInstalled''"] absent by blast
  have "\<forall>a < next_ref ?h. cell (fst (hypothesis_ref ?h ?e ''Windows'')) a = cell ?h a"
    using th [of "''Windows''"] by blast
  then have c: "cell (fst (hypothesis_ref ?h ?e ''Windows'')) 0 = cell ?h 0"
    by simp
  have t: "snd (hypothesis_ref ?h (?e\<lparr>obj_threshold := 8 / 10\<rparr>) ''Windows'') =
      ((case map_of (cell ?h (obj_token_weights (obj_mem ?e))) ''Windows'' of
          None \<Rightarrow> 0 | Some w \<Rightarrow> w) \<ge> 8 / 10)"
    using th [of "''Windows''"] by blast
  have upd: "?e\<lparr>obj_threshold := 8 / 10\<rparr> =
      \<lparr>obj_mem = \<lparr>obj_name = ''Env'', obj_decay = 9 / 10, obj_token_weights = 0\<rparr>,
          obj_threshold = 8 / 10\<rparr>" by simp
  show ?thesis
    using w p c t unfolding upd by simp
qed

subsection \<open>Copy on read\<close>

lemma caller_mutations_cell:
  "cell (caller_mutations c h ds) a = (if a = c \<and> ds \<noteq> [] then last ds else cell h a)"
  unfolding caller_mutations_def
  by (induction ds arbitrary: h) (auto simp: caller_mutation_def)

lemma caller_mutations_next [simp]: "next_ref (caller_mutations c h ds) = next_ref h"
  unfolding caller_mutations_def
  by (induction ds arbitrary: h) (auto simp: caller_mutation_def)

text \<open>
  C8. \<open>get_weights\<close> returns a new dictionary object with the contents of the store's
  mapping. Whatever the caller then does to the returned object, the store's mapping and
  every older object keep their contents, and \<open>update_weights\<close>, \<open>decay_weights\<close>,
  \<open>hypothesis\<close> and \<open>get_weights\<close> give the results they give without the snapshot.
\<close>

theorem get_weights_copy:
  fixes h :: heap and e :: EnvironmentStateTracker_obj and ds :: "pydict list"
  defines "self \<equiv> obj_mem e"
  defines "r \<equiv> obj_token_weights self"
  defines "h1 \<equiv> fst (get_weights_ref h self)"
  defines "c \<equiv> snd (get_weights_ref h self)"
  defines "h2 \<equiv> caller_mutations c h1 ds"
  assumes "r < next_ref h"
  shows "c \<noteq> r \<and> cell h1 c = cell h r
       \<and> cell h1 c = get_weights (shim_value h self)
       \<and> cell h2 r = cell h r
       \<and> (\<forall>a < next_ref h. cell h2 a = cell h a)
       \<and> shim_value h2 self = shim_value h self
       \<and> cell (update_weights_ref h2 self tokens intensity) r =
           cell (update_weights_ref h self tokens intensity) r
       \<and> map_sum id (\<lambda>h'. cell h' r) (decay_weights_ref h2 self) =
           map_sum id (\<lambda>h'. cell h' r) (decay_weights_ref h self)
       \<and> snd (hypothesis_ref h2 e key) = snd (hypothesis_ref h e key)
       \<and> cell (fst (get_weights_ref h2 self)) (snd (get_weights_ref h2 self)) = cell h r"
proof -
  have ne: "c \<noteq> r" using assms(6) by (simp add: c_def get_weights_ref_simps)
  have copy: "cell h1 c = cell h r"
    by (simp add: h1_def c_def r_def get_weights_ref_simps)
  have val: "cell h1 c = get_weights (shim_value h self)"
    by (simp add: copy get_weights_def shim_value_def r_def)
  have old: "\<forall>a < next_ref h. cell h2 a = cell h a"
    by (simp add: h2_def h1_def c_def caller_mutations_cell get_weights_ref_simps)
  have keep: "cell h2 r = cell h r" using old assms(6) by blast
  have sv: "shim_value h2 self = shim_value h self"
    using keep by (simp add: shim_value_def r_def)
  have upd: "cell (update_weights_ref h2 self tokens intensity) r =
           cell (update_weights_ref h self tokens intensity) r"
    by (simp add: update_weights_ref_def sv r_def)
  have dec: "map_sum id (\<lambda>h'. cell h' r) (decay_weights_ref h2 self) =
           map_sum id (\<lambda>h'. cell h' r) (decay_weights_ref h self)"
    by (simp add: decay_weights_ref_def sv r_def split: sum.splits)
  have hyp: "snd (hypothesis_ref h2 e key) = snd (hypothesis_ref h e key)"
    using keep by (simp add: hypothesis_ref_result r_def self_def)
  have again: "cell (fst (get_weights_ref h2 self)) (snd (get_weights_ref h2 self)) = cell h r"
    using keep by (simp add: get_weights_ref_simps r_def)
  from ne copy val keep old sv upd dec hyp again show ?thesis by blast
qed


theorem get_weights_copy_witness:
  "snd (get_weights_ref \<lparr>cell = (\<lambda>a. [])(0 := [(''X'', 1)]), next_ref = 1\<rparr>
          \<lparr>obj_name = ''Env'', obj_decay = 1 / 2, obj_token_weights = 0\<rparr>) = 1
   \<and> cell (caller_mutations 1
        (fst (get_weights_ref \<lparr>cell = (\<lambda>a. [])(0 := [(''X'', 1)]), next_ref = 1\<rparr>
          \<lparr>obj_name = ''Env'', obj_decay = 1 / 2, obj_token_weights = 0\<rparr>))
        [[], [(''X'', 99), (''Y'', 5)]]) 1 = [(''X'', 99), (''Y'', 5)]
   \<and> cell (caller_mutations 1
        (fst (get_weights_ref \<lparr>cell = (\<lambda>a. [])(0 := [(''X'', 1)]), next_ref = 1\<rparr>
          \<lparr>obj_name = ''Env'', obj_decay = 1 / 2, obj_token_weights = 0\<rparr>))
        [[], [(''X'', 99), (''Y'', 5)]]) 0 = [(''X'', 1)]
   \<and> cell (update_weights_ref (caller_mutations 1
        (fst (get_weights_ref \<lparr>cell = (\<lambda>a. [])(0 := [(''X'', 1)]), next_ref = 1\<rparr>
          \<lparr>obj_name = ''Env'', obj_decay = 1 / 2, obj_token_weights = 0\<rparr>))
        [[], [(''X'', 99), (''Y'', 5)]])
        \<lparr>obj_name = ''Env'', obj_decay = 1 / 2, obj_token_weights = 0\<rparr> [''X''] 1) 0 = [(''X'', 3 / 2)]"
proof -
  let ?h = "\<lparr>cell = (\<lambda>a. [])(0 := [(''X'', 1 :: real)]), next_ref = 1\<rparr>"
  let ?self = "\<lparr>obj_name = ''Env'', obj_decay = 1 / 2, obj_token_weights = 0\<rparr>"
  let ?e = "\<lparr>obj_mem = ?self, obj_threshold = 6 / 10\<rparr>"
  let ?ds = "[[], [(''X'', 99 :: real), (''Y'', 5)]]"
  have sel: "obj_mem ?e = ?self" by simp
  have alloc: "obj_token_weights (obj_mem ?e) < next_ref ?h" by simp
  have c: "snd (get_weights_ref ?h ?self) = 1"
    by (simp add: get_weights_ref_def)
  note th = get_weights_copy [OF alloc, of ?ds, unfolded sel c]
  have keep: "cell (caller_mutations 1 (fst (get_weights_ref ?h ?self)) ?ds) 0 = cell ?h 0"
    using th by simp
  have upd: "cell (update_weights_ref (caller_mutations 1 (fst (get_weights_ref ?h ?self)) ?ds)
                ?self [''X''] 1) 0 = cell (update_weights_ref ?h ?self [''X''] 1) 0"
    using th [of "[''X'']" 1] by simp
  have mut: "cell (caller_mutations 1 (fst (get_weights_ref ?h ?self)) ?ds) 1
       = [(''X'', 99), (''Y'', 5)]"
    by (simp add: caller_mutations_def caller_mutation_def)
  have direct: "cell (update_weights_ref ?h ?self [''X''] 1) 0 = [(''X'', 3 / 2)]"
    by (simp add: update_weights_ref_def shim_value_def dict_get_def dict_setitem_def)
  show ?thesis
    unfolding c keep upd mut direct by simp
qed

end
